theory Spec2Isabelle
  imports Main "HOL-Library.Sublist"
begin

section \<open>JavaScript values\<close>

text \<open>
  The values a log record, a filter clause or a result row can hold. Numbers are the
  integers (fractions and the floating-point specials are outside the model); a string
  is a list of 8-bit characters; an object is the list of its own enumerable
  properties in enumeration order.
\<close>

datatype js =
    JUndefined
  | JNull
  | JBool bool
  | JNum int
  | JStr string
  | JArr "js list"
  | JObj "(string \<times> js) list"

type_synonym row = "(string \<times> js) list"

text \<open>Property access \<open>obj[key]\<close> on an object: a missing property reads as undefined.\<close>

definition prop_get :: "(string \<times> js) list \<Rightarrow> string \<Rightarrow> js" where
  "prop_get obj k = (case map_of obj k of None \<Rightarrow> JUndefined | Some v \<Rightarrow> v)"

text \<open>Truthiness of an optional string and of an optional number, as \<open>x || d\<close> and \<open>x ? a : b\<close> read them.\<close>

definition truthy_string :: "string option \<Rightarrow> bool" where
  "truthy_string x = (case x of None \<Rightarrow> False | Some s \<Rightarrow> s \<noteq> [])"

definition truthy_number :: "int option \<Rightarrow> bool" where
  "truthy_number x = (case x of None \<Rightarrow> False | Some n \<Rightarrow> n \<noteq> 0)"

definition or_string :: "string option \<Rightarrow> string \<Rightarrow> string" where
  "or_string x d = (case x of None \<Rightarrow> d | Some s \<Rightarrow> if s = [] then d else s)"

definition or_number :: "int option \<Rightarrow> int \<Rightarrow> int" where
  "or_number x d = (case x of None \<Rightarrow> d | Some n \<Rightarrow> if n = 0 then d else n)"

subsection \<open>JSON.stringify\<close>

text \<open>
  The runtime's \<open>JSON.stringify\<close> (ECMAScript, SerializeJSONProperty and QuoteJSONString)
  on the values above. It returns undefined (here \<open>None\<close>) for undefined; inside an array
  an undefined element is written \<open>null\<close>, inside an object a property whose value is
  undefined is left out.
\<close>

definition digit_char :: "nat \<Rightarrow> char" where
  "digit_char d = char_of (48 + d)"

fun show_nat :: "nat \<Rightarrow> string" where
  "show_nat n = (if n < 10 then [digit_char n] else show_nat (n div 10) @ [digit_char (n mod 10)])"

declare show_nat.simps [simp del]

definition show_int :: "int \<Rightarrow> string" where
  "show_int i = (if i < 0 then CHR ''-'' # show_nat (nat (- i)) else show_nat (nat i))"

definition hex_char :: "nat \<Rightarrow> char" where
  "hex_char d = (if d < 10 then char_of (48 + d) else char_of (87 + d))"

definition quote_char :: "char \<Rightarrow> string" where
  "quote_char c =
     (if c = CHR 0x08 then [CHR 0x5C, CHR ''b'']
      else if c = CHR 0x09 then [CHR 0x5C, CHR ''t'']
      else if c = CHR 0x0A then [CHR 0x5C, CHR ''n'']
      else if c = CHR 0x0C then [CHR 0x5C, CHR ''f'']
      else if c = CHR 0x0D then [CHR 0x5C, CHR ''r'']
      else if c = CHR 0x22 then [CHR 0x5C, CHR 0x22]
      else if c = CHR 0x5C then [CHR 0x5C, CHR 0x5C]
      else if (of_char c :: nat) < 32
        then [CHR 0x5C, CHR ''u'', CHR ''0'', CHR ''0'',
              hex_char (of_char c div 16), hex_char (of_char c mod 16)]
      else [c])"

definition quote_string :: "string \<Rightarrow> string" where
  "quote_string s = CHR 0x22 # concat (map quote_char s) @ [CHR 0x22]"

fun join_comma :: "string list \<Rightarrow> string" where
  "join_comma [] = []"
| "join_comma [x] = x"
| "join_comma (x # y # ys) = x @ '','' @ join_comma (y # ys)"

function JSON_stringify :: "js \<Rightarrow> string option" where
  "JSON_stringify JUndefined = None"
| "JSON_stringify JNull = Some ''null''"
| "JSON_stringify (JBool b) = Some (if b then ''true'' else ''false'')"
| "JSON_stringify (JNum n) = Some (show_int n)"
| "JSON_stringify (JStr s) = Some (quote_string s)"
| "JSON_stringify (JArr xs) =
     Some (''['' @ join_comma (map (\<lambda>x. case JSON_stringify x of None \<Rightarrow> ''null'' | Some t \<Rightarrow> t) xs) @ '']'')"
| "JSON_stringify (JObj kvs) =
     Some (''{'' @ join_comma (concat (map (\<lambda>kv. case JSON_stringify (snd kv) of
                                                   None \<Rightarrow> []
                                                 | Some t \<Rightarrow> [quote_string (fst kv) @ '':'' @ t]) kvs)) @ ''}'')"
  by pat_completeness auto
termination
proof (relation "measure size")
  show "wf (measure (size :: js \<Rightarrow> nat))" by simp
next
  fix xs :: "js list" and x
  assume "x \<in> set xs"
  then have "size x < Suc (size_list size xs)"
    by (induction xs) auto
  then show "(x, JArr xs) \<in> measure size" by simp
next
  fix kvs :: "(string \<times> js) list" and kv
  assume "kv \<in> set kvs"
  then show "(snd kv, JObj kvs) \<in> measure size"
    by (induction kvs) auto
qed

subsection \<open>Reading JSON text\<close>

text \<open>
  A reader for JSON texts (RFC 8259) that have no insignificant whitespace, no
  fraction or exponent part, and only code units below 256 among the u-escapes. It accepts
  nothing that the JSON grammar does not: a number has no leading zero, a string holds
  no unescaped quote, backslash or control character, and nothing may follow the value.
  The value it returns is the value the text denotes. \<open>read_value\<close> takes fuel, one unit
  per nested call; \<open>JSON_parse\<close> gives it the length of the text.
\<close>

definition is_digit :: "char \<Rightarrow> bool" where
  "is_digit c = (48 \<le> (of_char c :: nat) \<and> (of_char c :: nat) \<le> 57)"

definition digit_val :: "char \<Rightarrow> nat" where
  "digit_val c = of_char c - 48"

definition read_nat :: "string \<Rightarrow> nat" where
  "read_nat ds = foldl (\<lambda>a c. 10 * a + digit_val c) 0 ds"

definition hex_val :: "char \<Rightarrow> nat option" where
  "hex_val c =
     (let n = (of_char c :: nat) in
      if 48 \<le> n \<and> n \<le> 57 then Some (n - 48)
      else if 97 \<le> n \<and> n \<le> 102 then Some (n - 87)
      else if 65 \<le> n \<and> n \<le> 70 then Some (n - 55)
      else None)"

definition unescape :: "char \<Rightarrow> char option" where
  "unescape e =
     (if e = CHR ''b'' then Some (CHR 0x08)
      else if e = CHR ''t'' then Some (CHR 0x09)
      else if e = CHR ''n'' then Some (CHR 0x0A)
      else if e = CHR ''f'' then Some (CHR 0x0C)
      else if e = CHR ''r'' then Some (CHR 0x0D)
      else if e = CHR 0x22 then Some (CHR 0x22)
      else if e = CHR 0x5C then Some (CHR 0x5C)
      else if e = CHR ''/'' then Some (CHR ''/'')
      else None)"

fun read_chars :: "string \<Rightarrow> (string \<times> string) option" where
  "read_chars [] = None"
| "read_chars (c # r) =
     (if c = CHR 0x22 then Some ([], r)
      else if c = CHR 0x5C then
        (case r of
           [] \<Rightarrow> None
         | e # r1 \<Rightarrow>
             if e = CHR ''u'' then
               (case r1 of
                  a # b # h # l # r2 \<Rightarrow>
                    (if a = CHR ''0'' \<and> b = CHR ''0'' then
                       (case (hex_val h, hex_val l) of
                          (Some x, Some y) \<Rightarrow>
                            (case read_chars r2 of
                               None \<Rightarrow> None
                             | Some (s, rest) \<Rightarrow> Some (char_of (16 * x + y) # s, rest))
                        | _ \<Rightarrow> None)
                     else None)
                | _ \<Rightarrow> None)
             else
               (case unescape e of
                  None \<Rightarrow> None
                | Some ch \<Rightarrow>
                    (case read_chars r1 of
                       None \<Rightarrow> None
                     | Some (s, rest) \<Rightarrow> Some (ch # s, rest))))
      else if (of_char c :: nat) < 32 then None
      else (case read_chars r of None \<Rightarrow> None | Some (s, rest) \<Rightarrow> Some (c # s, rest)))"

definition read_number :: "string \<Rightarrow> (js \<times> string) option" where
  "read_number s =
     (let neg = (s \<noteq> [] \<and> hd s = CHR ''-'');
          body = (if neg then tl s else s);
          ds = takeWhile is_digit body
      in if ds = [] \<or> (hd ds = CHR ''0'' \<and> length ds \<noteq> 1) then None
         else Some (JNum (if neg then - int (read_nat ds) else int (read_nat ds)),
                    dropWhile is_digit body))"

definition read_literal :: "string \<Rightarrow> js \<Rightarrow> string \<Rightarrow> (js \<times> string) option" where
  "read_literal w v s = (if take (length w) s = w then Some (v, drop (length w) s) else None)"

fun read_value :: "nat \<Rightarrow> string \<Rightarrow> (js \<times> string) option"
  and read_elements :: "nat \<Rightarrow> string \<Rightarrow> (js list \<times> string) option"
  and read_members :: "nat \<Rightarrow> string \<Rightarrow> ((string \<times> js) list \<times> string) option" where
  "read_value 0 s = None"
| "read_value (Suc n) s =
     (case s of
        [] \<Rightarrow> None
      | c # r \<Rightarrow>
          if c = CHR ''n'' then read_literal ''null'' JNull s
          else if c = CHR ''t'' then read_literal ''true'' (JBool True) s
          else if c = CHR ''f'' then read_literal ''false'' (JBool False) s
          else if c = CHR 0x22 then
            (case read_chars r of None \<Rightarrow> None | Some (str, rest) \<Rightarrow> Some (JStr str, rest))
          else if c = CHR ''['' then
            (case r of
               [] \<Rightarrow> None
             | c1 # r1 \<Rightarrow>
                 if c1 = CHR '']'' then Some (JArr [], r1)
                 else (case read_elements n r of
                         None \<Rightarrow> None
                       | Some (vs, rest) \<Rightarrow> Some (JArr vs, rest)))
          else if c = CHR ''{'' then
            (case r of
               [] \<Rightarrow> None
             | c1 # r1 \<Rightarrow>
                 if c1 = CHR ''}'' then Some (JObj [], r1)
                 else (case read_members n r of
                         None \<Rightarrow> None
                       | Some (kvs, rest) \<Rightarrow> Some (JObj kvs, rest)))
          else read_number s)"
| "read_elements 0 s = None"
| "read_elements (Suc n) s =
     (case read_value n s of
        None \<Rightarrow> None
      | Some (v, r) \<Rightarrow>
          (case r of
             [] \<Rightarrow> None
           | c # r1 \<Rightarrow>
               if c = CHR '','' then
                 (case read_elements n r1 of
                    None \<Rightarrow> None
                  | Some (vs, rest) \<Rightarrow> Some (v # vs, rest))
               else if c = CHR '']'' then Some ([v], r1)
               else None))"
| "read_members 0 s = None"
| "read_members (Suc n) s =
     (case s of
        [] \<Rightarrow> None
      | q # r \<Rightarrow>
          if q \<noteq> CHR 0x22 then None
          else
            (case read_chars r of
               None \<Rightarrow> None
             | Some (k, r1) \<Rightarrow>
                 (case r1 of
                    [] \<Rightarrow> None
                  | c # r2 \<Rightarrow>
                      if c \<noteq> CHR '':'' then None
                      else
                        (case read_value n r2 of
                           None \<Rightarrow> None
                         | Some (v, r3) \<Rightarrow>
                             (case r3 of
                                [] \<Rightarrow> None
                              | c3 # r4 \<Rightarrow>
                                  if c3 = CHR '','' then
                                    (case read_members n r4 of
                                       None \<Rightarrow> None
                                     | Some (kvs, rest) \<Rightarrow> Some ((k, v) # kvs, rest))
                                  else if c3 = CHR ''}'' then Some ([(k, v)], r4)
                                  else None)))))"

definition JSON_parse :: "string \<Rightarrow> js option" where
  "JSON_parse s = (case read_value (length s) s of Some (v, []) \<Rightarrow> Some v | _ \<Rightarrow> None)"

text \<open>
  The values \<open>JSON.stringify\<close> writes in full: no undefined at the top, in an array or
  in a property.
\<close>

fun serializable :: "js \<Rightarrow> bool" where
  "serializable JUndefined = False"
| "serializable (JArr xs) = (\<forall>x \<in> set xs. serializable x)"
| "serializable (JObj kvs) = (\<forall>kv \<in> set kvs. serializable (snd kv))"
| "serializable v = True"

text \<open>
  Names for the proofs: the text written for a value inside an array or a property, the
  text of one property, what may follow a number, and the statement that a value's text
  reads back as the value, whatever admissible text follows it.
\<close>

definition render :: "js \<Rightarrow> string" where
  "render v = (case JSON_stringify v of None \<Rightarrow> ''null'' | Some t \<Rightarrow> t)"

definition member :: "string \<times> js \<Rightarrow> string" where
  "member kv = quote_string (fst kv) @ '':'' @ render (snd kv)"

definition ends_number :: "string \<Rightarrow> bool" where
  "ends_number rest = (case rest of [] \<Rightarrow> True | c # r \<Rightarrow> \<not> is_digit c)"

definition reads :: "js \<Rightarrow> bool" where
  "reads v = (\<forall>n rest. length (render v) \<le> n \<longrightarrow> ends_number rest \<longrightarrow>
                read_value n (render v @ rest) = Some (v, rest))"


section \<open>Columns, tables and statements\<close>

text \<open>
  Modelled from the spec: the declaration of \<open>PostgresColumnDefinition\<close>
  (postgres-column-definition.ts), which is not among the sources. The spec's
  ColumnDefinition has a name, a data type and an optional default value (undefined
  when absent); the data type is kept as the string the transport compares it with.
  A \<open>column\<close> is the column object the query builder makes of a definition; it also
  carries the value set by \<open>column.value(v)\<close>.
\<close>

record column_definition =
  def_name :: string
  def_dataType :: string
  def_defaultValue :: js

record column =
  col_name :: string
  col_dataType :: string
  col_defaultValue :: js
  col_value :: js

record table =
  tbl_name :: string
  tbl_schema :: string
  tbl_columns :: "column list"

definition define_column :: "column_definition \<Rightarrow> column" where
  "define_column d =
     \<lparr>col_name = def_name d, col_dataType = def_dataType d,
      col_defaultValue = def_defaultValue d, col_value = JUndefined\<rparr>"

text \<open>\<open>sql.define({name, schema, columns})\<close>.\<close>

definition sql_define :: "string \<Rightarrow> string \<Rightarrow> column_definition list \<Rightarrow> table" where
  "sql_define nm sch defs = \<lparr>tbl_name = nm, tbl_schema = sch, tbl_columns = map define_column defs\<rparr>"

text \<open>
  The query builder's nodes. \<open>table[field][operator](value)\<close> is a binary node,
  \<open>table[field][operator](value[0], value[1])\<close> a ternary one;
  \<open>table[key][direction]()\<close> is an ordering node.
\<close>

datatype projection = Fields "string list" | Count string

datatype predicate =
    Binary string string js
  | Ternary string string js js

record select_query =
  sel_projection :: projection
  sel_where :: "predicate list option"
  sel_order :: "(string \<times> string) list option"
  sel_offset :: "int option"
  sel_limit :: "int option"

datatype statement =
    CreateIfNotExists table
  | Insert table "column list"
  | Select table select_query

section \<open>The database, events and promises\<close>

text \<open>
  A database error is an Error object; the transport reads its \<open>stack\<close>. The pool and
  its client are the environment: \<open>db_connect\<close> is what \<open>pool.connect()\<close> does
  (\<open>None\<close>: it resolves with a client), \<open>db_query\<close> what \<open>client.query\<close> does with a
  statement, and \<open>db_release_again\<close> what \<open>client.release()\<close> does on a client that was
  released before (\<open>None\<close>: it returns; \<open>Some e\<close>: it throws \<open>e\<close>). The first release
  of a client returns.
\<close>

record db_error =
  err_message :: string
  err_stack :: string

record result =
  res_rows :: "row list"
  res_rowCount :: int

record db =
  db_connect :: "db_error option"
  db_query :: "statement \<Rightarrow> db_error + result"
  db_release_again :: "db_error option"

text \<open>What a callback, a listener or a rejection handler receives.\<close>

datatype payload =
    Value js
  | ErrorObject db_error

text \<open>
  The calls the transport makes on its collaborators, in order: \<open>pool.connect()\<close>,
  \<open>client.query(statement)\<close>, \<open>client.release()\<close>, \<open>this.emit(name, payload)\<close> and
  \<open>callback(error, result)\<close>. The completion callback is taken to return normally;
  what \<open>emit\<close> does depends on the listeners registered on the transport (below).
\<close>

datatype event =
    Connect
  | Query statement
  | Release
  | Emit string payload
  | Callback payload payload

datatype 'a promise =
    Pending
  | Resolved 'a
  | Rejected payload

section \<open>The transport\<close>

text \<open>
  The constants of \<open>PostgresConstants\<close> (postgres.constants.ts) are not among the
  sources; they are a parameter of the constructor.
\<close>

record postgres_constants =
  DEFAULT_LEVEL :: string
  DEFAULT_SCHEMA :: string
  DEFAULT_TABLE_NAME :: string
  DEFAULT_TABLE_COLUMNS :: "column_definition list"
  DEFAULT_POOL :: int
  DIALECT :: string

datatype ssl_option = SslFlag bool | SslRejectUnauthorized bool

record postgres_options =
  opt_level :: "string option"
  opt_silent :: "bool option"
  opt_connectionString :: "string option"
  opt_maxPool :: "int option"
  opt_ssl :: "ssl_option option"
  opt_schema :: "string option"
  opt_tableName :: "string option"
  opt_tableColumns :: "column_definition list option"
  opt_timezone :: "string option"

record pool_config =
  pool_connectionString :: string
  pool_max :: int
  pool_ssl :: ssl_option

text \<open>
  The transport is an event emitter: the listeners registered on it are part of its
  state. A listener is what it does with the payload: \<open>None\<close> when it returns,
  \<open>Some x\<close> when it throws the Error \<open>x\<close>.
\<close>

type_synonym listener = "payload \<Rightarrow> db_error option"

record transport =
  level :: string
  silent :: bool
  schema :: string
  tableName :: string
  tableColumns :: "column_definition list"
  timezone :: "string option"
  sql_dialect :: string
  table :: table
  pool :: pool_config
  listeners :: "string \<Rightarrow> listener list"

text \<open>
  The runtime's \<open>emit\<close> (Node's EventEmitter). The listeners of the event are called
  in order, and the first one that throws ends the call with its throw. For an event
  other than \<open>error\<close>, \<open>emit\<close> with no listener returns. For the event \<open>error\<close>, \<open>emit\<close>
  with no listener throws: the payload itself when it is an Error, otherwise a new Error
  that holds the payload.
\<close>

fun run_listeners :: "listener list \<Rightarrow> payload \<Rightarrow> db_error option" where
  "run_listeners [] p = None"
| "run_listeners (l # ls) p = (case l p of Some x \<Rightarrow> Some x | None \<Rightarrow> run_listeners ls p)"

definition emit_event :: "transport \<Rightarrow> string \<Rightarrow> payload \<Rightarrow> db_error option" where
  "emit_event t name p = run_listeners (listeners t name) p"

datatype emit_outcome =
    Returned
  | ListenerThrew db_error
  | Unhandled payload

definition emit_error :: "transport \<Rightarrow> payload \<Rightarrow> emit_outcome" where
  "emit_error t p =
     (if listeners t ''error'' = [] then Unhandled p
      else (case run_listeners (listeners t ''error'') p of
              None \<Rightarrow> Returned
            | Some x \<Rightarrow> ListenerThrew x))"

subsection \<open>hydrateColumns\<close>

text \<open>
  The text appended to \<open>NOW()\<close> (the source's \<open>tz\<close>), the callback of \<open>columns.map\<close>,
  then the map itself.
\<close>

definition timezone_suffix :: "transport \<Rightarrow> string" where
  "timezone_suffix t =
     (if truthy_string (timezone t)
      then '' at time zone '' @ [CHR 0x27] @ the (timezone t) @ [CHR 0x27]
      else [])"

definition hydrateColumn :: "transport \<Rightarrow> (string \<times> js) list \<Rightarrow> column \<Rightarrow> column" where
  "hydrateColumn t args c =
     (let v = prop_get args (col_name c) in
      if col_dataType c = ''JSON'' then
        c\<lparr>col_value := (case JSON_stringify v of None \<Rightarrow> JUndefined | Some s \<Rightarrow> JStr s)\<rparr>
      else if col_dataType c \<in> set [''TIMESTAMP'', ''TIMESTAMPTZ''] then
        c\<lparr>col_value := JStr (''NOW()'' @ timezone_suffix t)\<rparr>
      else
        c\<lparr>col_value := (if v = JNull \<or> v = JUndefined then col_defaultValue c else v)\<rparr>)"

definition hydrateColumns :: "transport \<Rightarrow> (string \<times> js) list \<Rightarrow> column list \<Rightarrow> column list" where
  "hydrateColumns t args cols = map (hydrateColumn t args) cols"

subsection \<open>constructor\<close>

text \<open>
  The constructor throws when the connection string is missing or empty. A new
  transport has no listener for the events \<open>logged\<close> and \<open>error\<close>; the caller registers
  them afterwards. Otherwise it
  returns the transport, after starting a promise chain that nothing awaits: connect,
  create the table if it does not exist, release. The result is the transport (or the
  thrown message), the calls made, and the state in which the detached chain ends.
\<close>

definition or_ssl :: "ssl_option option \<Rightarrow> ssl_option" where
  "or_ssl x = (case x of None \<Rightarrow> SslFlag False | Some (SslFlag False) \<Rightarrow> SslFlag False | Some s \<Rightarrow> s)"

definition new_transport :: "postgres_constants \<Rightarrow> postgres_options \<Rightarrow> transport" where
  "new_transport k options =
     (let sch = or_string (opt_schema options) (DEFAULT_SCHEMA k);
          nm = or_string (opt_tableName options) (DEFAULT_TABLE_NAME k);
          cols = (case opt_tableColumns options of None \<Rightarrow> DEFAULT_TABLE_COLUMNS k | Some cs \<Rightarrow> cs)
      in \<lparr>level = or_string (opt_level options) (DEFAULT_LEVEL k),
          silent = (case opt_silent options of None \<Rightarrow> False | Some b \<Rightarrow> b),
          schema = sch,
          tableName = nm,
          tableColumns = cols,
          timezone = (if truthy_string (opt_timezone options) then opt_timezone options else None),
          sql_dialect = DIALECT k,
          table = sql_define nm sch cols,
          pool = \<lparr>pool_connectionString = the (opt_connectionString options),
                  pool_max = or_number (opt_maxPool options) (DEFAULT_POOL k),
                  pool_ssl = or_ssl (opt_ssl options)\<rparr>,
          listeners = (\<lambda>name. [])\<rparr>)"

definition create_table :: "transport \<Rightarrow> db \<Rightarrow> event list \<times> unit promise" where
  "create_table t d =
     (case db_connect d of
        Some e \<Rightarrow> ([Connect], Rejected (ErrorObject e))
      | None \<Rightarrow>
          (case db_query d (CreateIfNotExists (table t)) of
             Inr r \<Rightarrow> ([Connect, Query (CreateIfNotExists (table t)), Release], Resolved ())
           | Inl e \<Rightarrow> ([Connect, Query (CreateIfNotExists (table t)), Release],
                       Rejected (Value (JStr (err_stack e))))))"

definition constructor ::
  "postgres_constants \<Rightarrow> db \<Rightarrow> postgres_options \<Rightarrow> string + (transport \<times> event list \<times> unit promise)" where
  "constructor k d options =
     (if \<not> truthy_string (opt_connectionString options)
      then Inl (''Postgres transport requires '' @ [CHR 0x22] @ ''connectionString'' @ [CHR 0x22] @ ''.'')
      else (let t = new_transport k options in Inr (t, create_table t d)))"

subsection \<open>log\<close>

text \<open>
  The result is the transport after the call and the calls made, in order. When
  \<open>pool.connect()\<close> rejects, the promise \<open>log\<close> returns is rejected and neither handler
  runs. A throw inside the then-handler (a listener of \<open>logged\<close> that throws) is caught
  by the catch handler, which then releases the client a second time. A throw inside
  the catch handler (the second release, or \<open>emit\<close> of the event \<open>error\<close>) ends it: the
  calls after the throw are not made.
\<close>

definition insert_statement :: "transport \<Rightarrow> (string \<times> js) list \<Rightarrow> statement" where
  "insert_statement t args =
     Insert (table t)
       (filter (\<lambda>c. col_dataType c \<noteq> ''SERIAL'') (hydrateColumns t args (tbl_columns (table t))))"

text \<open>
  The catch handler of \<open>log\<close> for the error \<open>e\<close>: \<open>client.release()\<close>,
  \<open>this.emit('error', e.stack)\<close>, \<open>callback(e.stack)\<close>. \<open>released\<close> says whether the
  client was released before the handler runs.
\<close>

definition log_catch :: "transport \<Rightarrow> db \<Rightarrow> bool \<Rightarrow> db_error \<Rightarrow> event list" where
  "log_catch t d released e =
     (if released \<and> db_release_again d \<noteq> None then [Release]
      else
        (case emit_error t (Value (JStr (err_stack e))) of
           Returned \<Rightarrow>
             [Release, Emit ''error'' (Value (JStr (err_stack e))),
              Callback (Value (JStr (err_stack e))) (Value JUndefined)]
         | ListenerThrew x \<Rightarrow> [Release, Emit ''error'' (Value (JStr (err_stack e)))]
         | Unhandled p \<Rightarrow> [Release, Emit ''error'' (Value (JStr (err_stack e)))]))"

definition log :: "transport \<Rightarrow> db \<Rightarrow> (string \<times> js) list \<Rightarrow> transport \<times> event list" where
  "log t d args =
     (if silent t then (t, [Callback (Value JNull) (Value (JBool True))])
      else
        (let query = insert_statement t args in
         case db_connect d of
           Some e \<Rightarrow> (t, [Connect])
         | None \<Rightarrow>
             (case db_query d query of
                Inr r \<Rightarrow>
                  (case emit_event t ''logged'' (Value (JObj args)) of
                     None \<Rightarrow>
                       (t, [Connect, Query query, Release,
                            Emit ''logged'' (Value (JObj args)),
                            Callback (Value JNull) (Value (JBool True))])
                   | Some x \<Rightarrow>
                       (t, [Connect, Query query, Release,
                            Emit ''logged'' (Value (JObj args))] @ log_catch t d True x))
              | Inl e \<Rightarrow> (t, [Connect, Query query] @ log_catch t d False e))))"

subsection \<open>query\<close>

text \<open>
  Modelled from the spec: the declarations of \<open>QueryOptions\<close> (query-options.ts) and
  \<open>PaginatedDataDto\<close> (paginated-data.dto.ts), which are not among the sources. The
  options are the spec's QueryRequest and FilterClause, with the fields \<open>query\<close> reads;
  the page object is the spec's PageResult, holding the five constructor arguments in
  the order \<open>query\<close> passes them.
\<close>

record where_option =
  w_field :: string
  w_operator :: string
  w_value :: js

record query_options =
  q_fields :: "string list option"
  q_where :: "where_option list option"
  q_order :: "(string \<times> string) list option"
  q_limit :: "int option"
  q_page :: "int option"

record paginated_data_dto =
  dto_rows :: "row list"
  dto_rowCount :: int
  dto_limit :: int
  dto_page :: "int option"
  dto_total :: js

datatype query_result =
    Rows "row list"
  | Page paginated_data_dto

datatype js_exception = TypeError

text \<open>
  \<open>value[i]\<close>: reading an index of undefined or null throws a TypeError; an array, a
  string and an object give the element, the character or the property, or undefined
  when there is none; every other value gives undefined.
\<close>

fun js_index :: "js \<Rightarrow> nat \<Rightarrow> js_exception + js" where
  "js_index JUndefined i = Inl TypeError"
| "js_index JNull i = Inl TypeError"
| "js_index (JArr xs) i = Inr (if i < length xs then xs ! i else JUndefined)"
| "js_index (JStr s) i = Inr (if i < length s then JStr [s ! i] else JUndefined)"
| "js_index (JObj kvs) i = Inr (prop_get kvs (show_nat i))"
| "js_index (JBool b) i = Inr JUndefined"
| "js_index (JNum n) i = Inr JUndefined"

definition where_node :: "where_option \<Rightarrow> js_exception + predicate" where
  "where_node opt =
     (if w_operator opt = ''between'' \<or> w_operator opt = ''notBetween'' then
        (case js_index (w_value opt) 0 of
           Inl e \<Rightarrow> Inl e
         | Inr a \<Rightarrow>
             (case js_index (w_value opt) 1 of
                Inl e \<Rightarrow> Inl e
              | Inr b \<Rightarrow> Inr (Ternary (w_field opt) (w_operator opt) a b)))
      else Inr (Binary (w_field opt) (w_operator opt) (w_value opt)))"

text \<open>\<open>xs.map(f)\<close> for a callback that can throw: the first throw ends the map.\<close>

fun map_throwing :: "('a \<Rightarrow> 'e + 'b) \<Rightarrow> 'a list \<Rightarrow> 'e + 'b list" where
  "map_throwing f [] = Inr []"
| "map_throwing f (x # xs) =
     (case f x of
        Inl e \<Rightarrow> Inl e
      | Inr y \<Rightarrow> (case map_throwing f xs of Inl e \<Rightarrow> Inl e | Inr ys \<Rightarrow> Inr (y # ys)))"

definition lower_char :: "char \<Rightarrow> char" where
  "lower_char c =
     (if 65 \<le> (of_char c :: nat) \<and> (of_char c :: nat) \<le> 90 then char_of (of_char c + 32 :: nat) else c)"

definition toLowerCase :: "string \<Rightarrow> string" where
  "toLowerCase s = map lower_char s"

text \<open>
  The first part of \<open>query\<close>: the select and the count query as built before the
  promise is made. A throw here leaves \<open>query\<close> before any call on the pool.
\<close>

definition build_queries :: "transport \<Rightarrow> query_options \<Rightarrow> js_exception + (select_query \<times> select_query)" where
  "build_queries t options =
     (let fields = (case q_fields options of None \<Rightarrow> map def_name (tableColumns t) | Some fs \<Rightarrow> fs);
          query0 = \<lparr>sel_projection = Fields fields, sel_where = None, sel_order = None,
                    sel_offset = None, sel_limit = None\<rparr>;
          countQuery0 = \<lparr>sel_projection = Count ''total'', sel_where = None, sel_order = None,
                         sel_offset = None, sel_limit = None\<rparr>
      in case (case q_where options of
                 None \<Rightarrow> Inr (query0, countQuery0)
               | Some ws \<Rightarrow>
                   (case map_throwing where_node ws of
                      Inl e \<Rightarrow> Inl e
                    | Inr ps \<Rightarrow> Inr (query0\<lparr>sel_where := Some ps\<rparr>, countQuery0\<lparr>sel_where := Some ps\<rparr>))) of
           Inl e \<Rightarrow> Inl e
         | Inr (query1, countQuery) \<Rightarrow>
             (let query2 = (case q_order options of
                              None \<Rightarrow> query1
                            | Some os \<Rightarrow> query1\<lparr>sel_order := Some (map (\<lambda>(k, v). (k, toLowerCase v)) os)\<rparr>);
                  query3 = (if truthy_number (q_limit options) then
                              (let offset = (if truthy_number (q_page options)
                                             then the (q_limit options) * the (q_page options)
                                             else 0)
                               in query2\<lparr>sel_offset := Some offset, sel_limit := q_limit options\<rparr>)
                            else query2)
              in Inr (query3, countQuery)))"

text \<open>
  The second part: the promise. The result is the calls made, in order, and the state
  in which the returned promise ends. When \<open>pool.connect()\<close> rejects, neither
  \<open>resolve\<close> nor \<open>reject\<close> is called. After the select the client is released; with a
  truthy limit the count is then awaited on the same client, and when it fails the
  catch handler releases the client a second time before it rejects.
\<close>

definition run_queries ::
  "transport \<Rightarrow> db \<Rightarrow> query_options \<Rightarrow> select_query \<Rightarrow> select_query \<Rightarrow> event list \<times> query_result promise" where
  "run_queries t d options query countQuery =
     (case db_connect d of
        Some e \<Rightarrow> ([Connect], Pending)
      | None \<Rightarrow>
          (case db_query d (Select (table t) query) of
             Inl e \<Rightarrow>
               ([Connect, Query (Select (table t) query), Release],
                Rejected (Value (JStr (err_stack e))))
           | Inr result \<Rightarrow>
               if truthy_number (q_limit options) then
                 (case db_query d (Select (table t) countQuery) of
                    Inr count \<Rightarrow>
                      ([Connect, Query (Select (table t) query), Release,
                        Query (Select (table t) countQuery)],
                       Resolved (Page \<lparr>dto_rows = res_rows result,
                                       dto_rowCount = res_rowCount result,
                                       dto_limit = the (q_limit options),
                                       dto_page = q_page options,
                                       dto_total = (case res_rows count of
                                                      [] \<Rightarrow> JNum 0
                                                    | r # rs \<Rightarrow> prop_get r ''total'')\<rparr>))
                  | Inl e \<Rightarrow>
                      ([Connect, Query (Select (table t) query), Release,
                        Query (Select (table t) countQuery), Release],
                       (case db_release_again d of
                          None \<Rightarrow> Rejected (Value (JStr (err_stack e)))
                        | Some e' \<Rightarrow> Pending)))
               else
                 ([Connect, Query (Select (table t) query), Release],
                  Resolved (Rows (res_rows result)))))"

definition query ::
  "transport \<Rightarrow> db \<Rightarrow> query_options \<Rightarrow> js_exception + (event list \<times> query_result promise)" where
  "query t d options =
     (case build_queries t options of
        Inl e \<Rightarrow> Inl e
      | Inr (q, cq) \<Rightarrow> Inr (run_queries t d options q cq))"

section \<open>Sample values\<close>

text \<open>
  Concrete inputs for the closed theorems below: constants and options, the transport
  built from them (which has no listener yet), a record, requests, and three databases (every statement fails,
  every statement succeeds, only the count fails).
\<close>

definition sample_constants :: postgres_constants where
  "sample_constants =
     \<lparr>DEFAULT_LEVEL = ''info'', DEFAULT_SCHEMA = ''public'', DEFAULT_TABLE_NAME = ''winston_logs'',
      DEFAULT_TABLE_COLUMNS =
        [\<lparr>def_name = ''id'', def_dataType = ''SERIAL'', def_defaultValue = JUndefined\<rparr>,
         \<lparr>def_name = ''message'', def_dataType = ''VARCHAR'', def_defaultValue = JUndefined\<rparr>,
         \<lparr>def_name = ''meta'', def_dataType = ''JSON'', def_defaultValue = JUndefined\<rparr>,
         \<lparr>def_name = ''timestamp'', def_dataType = ''TIMESTAMP'', def_defaultValue = JUndefined\<rparr>],
      DEFAULT_POOL = 10, DIALECT = ''postgres''\<rparr>"

definition sample_options :: postgres_options where
  "sample_options =
     \<lparr>opt_level = None, opt_silent = None, opt_connectionString = Some ''postgres://localhost/logs'',
      opt_maxPool = None, opt_ssl = None, opt_schema = None, opt_tableName = None,
      opt_tableColumns = None, opt_timezone = Some ''utc+2''\<rparr>"

definition sample_transport :: transport where
  "sample_transport = new_transport sample_constants sample_options"

text \<open>The sample transport after the caller registered a listener that returns, for every event.\<close>

definition listening_transport :: transport where
  "listening_transport = sample_transport\<lparr>listeners := (\<lambda>name. [\<lambda>p. None])\<rparr>"

definition sample_args :: "(string \<times> js) list" where
  "sample_args =
     [(''message'', JStr ''hi''), (''level'', JStr ''info''), (''timestamp'', JStr ''yesterday'')]"

definition sample_error :: db_error where
  "sample_error = \<lparr>err_message = ''boom'', err_stack = ''error: boom at Parser.parseErrorMessage''\<rparr>"

definition sample_result :: result where
  "sample_result = \<lparr>res_rows = [[(''message'', JStr ''hi'')]], res_rowCount = 1\<rparr>"

definition failing_db :: db where
  "failing_db = \<lparr>db_connect = None, db_query = (\<lambda>s. Inl sample_error), db_release_again = None\<rparr>"

definition working_db :: db where
  "working_db = \<lparr>db_connect = None, db_query = (\<lambda>s. Inr sample_result), db_release_again = None\<rparr>"

definition is_count :: "statement \<Rightarrow> bool" where
  "is_count s =
     (case s of
        Select tb q \<Rightarrow> (case sel_projection q of Count a \<Rightarrow> True | Fields fs \<Rightarrow> False)
      | _ \<Rightarrow> False)"

definition count_failing_db :: db where
  "count_failing_db =
     \<lparr>db_connect = None,
      db_query = (\<lambda>s. if is_count s then Inl sample_error else Inr sample_result),
      db_release_again = None\<rparr>"

definition request :: "int option \<Rightarrow> int option \<Rightarrow> query_options" where
  "request l p = \<lparr>q_fields = Some [''message''], q_where = None, q_order = None, q_limit = l, q_page = p\<rparr>"

definition select_of :: "int option \<Rightarrow> int option \<Rightarrow> select_query" where
  "select_of off l =
     \<lparr>sel_projection = Fields [''message''], sel_where = None, sel_order = None,
      sel_offset = off, sel_limit = l\<rparr>"

definition count_of :: select_query where
  "count_of =
     \<lparr>sel_projection = Count ''total'', sel_where = None, sel_order = None,
      sel_offset = None, sel_limit = None\<rparr>"

definition sample_meta :: js where
  "sample_meta = JObj [(''tags'', JArr [JStr ''a'', JNull]), (''n'', JNum (- 3))]"

definition sample_json_args :: "(string \<times> js) list" where
  "sample_json_args = [(''message'', JStr ''hi''), (''meta'', sample_meta)]"

section \<open>Facts about the sample values\<close>

lemma sample_transport_fields:
  "silent sample_transport = False"
  "timezone sample_transport = Some ''utc+2''"
  "tableColumns sample_transport = DEFAULT_TABLE_COLUMNS sample_constants"
  "tbl_columns (table sample_transport) = map define_column (DEFAULT_TABLE_COLUMNS sample_constants)"
  "listeners sample_transport name = []"
  by (simp_all add: sample_transport_def new_transport_def sample_options_def truthy_string_def
      sql_define_def Let_def)

lemma listening_transport_fields:
  "silent listening_transport = False"
  "table listening_transport = table sample_transport"
  "emit_error listening_transport p = Returned"
  "emit_event listening_transport name p = None"
  by (simp_all add: listening_transport_def sample_transport_fields emit_error_def emit_event_def)

lemma emit_error_sample_transport: "emit_error sample_transport p = Unhandled p"
  by (simp add: emit_error_def sample_transport_fields)

lemma insert_statement_listening:
  "insert_statement listening_transport args = insert_statement sample_transport args"
proof -
  have h: "timezone_suffix listening_transport = timezone_suffix sample_transport"
    by (simp add: timezone_suffix_def listening_transport_def)
  have "hydrateColumn listening_transport args c = hydrateColumn sample_transport args c" for c
    unfolding hydrateColumn_def h by (rule refl)
  then have "hydrateColumn listening_transport args = hydrateColumn sample_transport args"
    by (intro ext)
  then show ?thesis
    by (simp add: insert_statement_def hydrateColumns_def listening_transport_fields)
qed

lemma build_request: "build_queries t (request (Some 10) (Some 2)) = Inr (select_of (Some 20) (Some 10), count_of)"
  by (simp add: build_queries_def request_def select_of_def count_of_def truthy_number_def)

lemma build_request_nolimit: "build_queries t (request None p) = Inr (select_of None None, count_of)"
  by (simp add: build_queries_def request_def select_of_def count_of_def truthy_number_def)

lemma build_request_zero: "build_queries t (request (Some 0) p) = Inr (select_of None None, count_of)"
  by (simp add: build_queries_def request_def select_of_def count_of_def truthy_number_def)

section \<open>Reading: pagination and the connection\<close>

text \<open>What the builder leaves in the offset and limit clauses of the two queries.\<close>

lemma build_queries_paging:
  assumes "build_queries t options = Inr (q, cq)"
  shows "sel_offset q = (if truthy_number (q_limit options)
                         then Some (if truthy_number (q_page options) then the (q_limit options) * the (q_page options) else 0)
                         else None)"
    and "sel_limit q = (if truthy_number (q_limit options) then q_limit options else None)"
    and "sel_offset cq = None" and "sel_limit cq = None"
    and "sel_projection cq = Count ''total''"
    and "\<exists>fs. sel_projection q = Fields fs"
  using assms
  by (auto simp: build_queries_def Let_def split: option.splits sum.splits if_splits)

text \<open>A read whose limit is absent or zero: one select, no count, a plain row list.\<close>

lemma query_falsy_limit:
  assumes "\<not> truthy_number (q_limit options)" and "query t d options = Inr (evs, p)"
  shows "\<exists>q cq. build_queries t options = Inr (q, cq) \<and> sel_offset q = None \<and> sel_limit q = None
           \<and> q \<noteq> cq
           \<and> evs = (case db_connect d of Some e \<Rightarrow> [Connect]
                      | None \<Rightarrow> [Connect, Query (Select (table t) q), Release])
           \<and> p = (case db_connect d of Some e \<Rightarrow> Pending
                    | None \<Rightarrow> (case db_query d (Select (table t) q) of
                                  Inl e \<Rightarrow> Rejected (Value (JStr (err_stack e)))
                                | Inr r \<Rightarrow> Resolved (Rows (res_rows r))))"
proof -
  from assms(2) obtain q cq where b: "build_queries t options = Inr (q, cq)"
    and r: "run_queries t d options q cq = (evs, p)"
    by (auto simp: query_def split: sum.splits)
  from build_queries_paging [OF b] assms(1)
  have "sel_offset q = None" and "sel_limit q = None" and "q \<noteq> cq"
    by auto
  moreover from r assms(1)
  have "evs = (case db_connect d of Some e \<Rightarrow> [Connect]
                      | None \<Rightarrow> [Connect, Query (Select (table t) q), Release])"
    and "p = (case db_connect d of Some e \<Rightarrow> Pending
                    | None \<Rightarrow> (case db_query d (Select (table t) q) of
                                  Inl e \<Rightarrow> Rejected (Value (JStr (err_stack e)))
                                | Inr r \<Rightarrow> Resolved (Rows (res_rows r))))"
    by (auto simp: run_queries_def split: option.splits sum.splits)
  ultimately show ?thesis using b by blast
qed

text \<open>
  A read with a truthy limit whose select succeeds: the client is released before the
  count is issued on it, whatever the count then does.
\<close>

lemma paginated_count_after_release:
  assumes "truthy_number (q_limit options)" and "db_connect d = None"
    and "db_query d (Select (table t) q) = Inr r"
  shows "\<exists>rest. fst (run_queries t d options q cq) =
           [Connect, Query (Select (table t) q), Release, Query (Select (table t) cq)] @ rest"
  using assms by (simp add: run_queries_def split: sum.splits)

text \<open>
  Once the connection is acquired, a read connects once; it releases the client once
  on every path but one: with a truthy limit, a successful select and a failing count
  it releases the client twice.
\<close>

lemma run_queries_releases:
  assumes "db_connect d = None"
  shows "count_list (fst (run_queries t d options q cq)) Connect = 1"
    and "count_list (fst (run_queries t d options q cq)) Release =
           (if truthy_number (q_limit options) \<and> isl (db_query d (Select (table t) cq))
                \<and> \<not> isl (db_query d (Select (table t) q))
            then 2 else 1)"
  using assms by (auto simp: run_queries_def split: sum.splits)

text \<open>
  C1 (the code departs from the claim). The claim: every connection a read acquires is
  released exactly once, on every exit path, and in the paginated path both statements
  are issued before the connection's lifetime ends. The code: on the sample transport,
  with a database whose select succeeds and whose count fails, a read with limit 10 and
  page 2 makes these calls: connect, the select, release, the count on the released
  client, and release again. One acquisition is released twice, and the count runs
  after the first release.
\<close>

theorem query_count_failure_releases_twice:
  "query sample_transport count_failing_db (request (Some 10) (Some 2)) =
     Inr ([Connect,
           Query (Select (table sample_transport) (select_of (Some 20) (Some 10))),
           Release,
           Query (Select (table sample_transport) count_of),
           Release],
          Rejected (Value (JStr (err_stack sample_error))))"
proof -
  have "query sample_transport count_failing_db (request (Some 10) (Some 2)) =
        Inr (run_queries sample_transport count_failing_db (request (Some 10) (Some 2))
               (select_of (Some 20) (Some 10)) count_of)"
    by (simp add: query_def build_request)
  moreover have "q_limit (request (Some 10) (Some 2)) = Some 10"
    by (simp add: request_def)
  moreover have "is_count (Select (table sample_transport) count_of)"
    and "\<not> is_count (Select (table sample_transport) (select_of (Some 20) (Some 10)))"
    by (simp_all add: is_count_def count_of_def select_of_def)
  ultimately show ?thesis
    by (simp add: run_queries_def count_failing_db_def truthy_number_def)
qed

text \<open>
  C4. For a read request with limit \<open>l\<close>, the select skips \<open>l * page\<close> rows, where a
  missing page counts as 0: a statement with no offset clause skips no row, and that is
  the case only when \<open>l\<close> is 0, where \<open>l * page\<close> is 0 as well. For a limit other than 0
  the offset clause is exactly \<open>l * page\<close> and the limit clause is \<open>l\<close>. With limit 10
  and page 2 the offset is 20 (the closed instance below).
\<close>

theorem offset_is_limit_times_page:
  assumes "q_limit options = Some l" and "build_queries t options = Inr (q, cq)"
  shows "(case sel_offset q of None \<Rightarrow> 0 | Some off \<Rightarrow> off) = l * (case q_page options of None \<Rightarrow> 0 | Some p \<Rightarrow> p)
       \<and> (l \<noteq> 0 \<longrightarrow> sel_offset q = Some (l * (case q_page options of None \<Rightarrow> 0 | Some p \<Rightarrow> p)) \<and> sel_limit q = Some l)"
  using assms build_queries_paging(1,2)[OF assms(2)]
  by (auto simp: truthy_number_def split: option.splits)

theorem offset_is_limit_times_page_witness:
  "q_limit (request (Some 10) (Some 2)) = Some 10
   \<and> build_queries sample_transport (request (Some 10) (Some 2)) = Inr (select_of (Some 20) (Some 10), count_of)
   \<and> sel_offset (select_of (Some 20) (Some 10)) = Some 20"
proof -
  have l: "q_limit (request (Some 10) (Some 2)) = Some 10"
    by (simp add: request_def)
  have b: "build_queries sample_transport (request (Some 10) (Some 2)) = Inr (select_of (Some 20) (Some 10), count_of)"
    by (rule build_request)
  from offset_is_limit_times_page [OF l b] l b show ?thesis
    by (simp add: request_def)
qed

text \<open>
  C5. For a read request with no limit (and no throw while the queries are built): the
  select carries neither an offset nor a limit clause; the count statement is not among
  the calls made, whose only statement is the select; the promise never resolves to a
  page; and when the connection is acquired and the select succeeds, the promise
  resolves to the plain rows of the result.
\<close>

theorem query_without_limit_is_plain:
  assumes "q_limit options = None" and "query t d options = Inr (evs, p)"
  shows "\<exists>q cq. build_queries t options = Inr (q, cq)
           \<and> sel_offset q = None \<and> sel_limit q = None
           \<and> Query (Select (table t) cq) \<notin> set evs
           \<and> (\<forall>s. Query s \<in> set evs \<longrightarrow> s = Select (table t) q)
           \<and> (\<forall>dto. p \<noteq> Resolved (Page dto))
           \<and> (\<forall>r. db_connect d = None \<and> db_query d (Select (table t) q) = Inr r
                  \<longrightarrow> p = Resolved (Rows (res_rows r)))"
proof -
  from assms(1) have "\<not> truthy_number (q_limit options)"
    by (simp add: truthy_number_def)
  from query_falsy_limit [OF this assms(2)] show ?thesis
    by (fastforce split: option.splits sum.splits)
qed

theorem query_without_limit_is_plain_witness:
  "q_limit (request None None) = None
   \<and> query sample_transport working_db (request None None) =
       Inr ([Connect, Query (Select (table sample_transport) (select_of None None)), Release],
            Resolved (Rows (res_rows sample_result)))
   \<and> Query (Select (table sample_transport) count_of)
       \<notin> set [Connect, Query (Select (table sample_transport) (select_of None None)), Release]"
proof -
  have l: "q_limit (request None None) = None"
    by (simp add: request_def)
  have q: "query sample_transport working_db (request None None) =
       Inr ([Connect, Query (Select (table sample_transport) (select_of None None)), Release],
            Resolved (Rows (res_rows sample_result)))"
    by (simp add: query_def build_request_nolimit run_queries_def working_db_def l truthy_number_def)
  from query_without_limit_is_plain [OF l q] l q show ?thesis
    by (simp add: build_request_nolimit)
qed

text \<open>
  C10. A read request whose limit is 0 is treated as one with no limit: no offset or
  limit clause, no count statement among the calls, never a page, and the plain rows
  when the connection is acquired and the select succeeds.
\<close>

theorem query_with_limit_zero_is_plain:
  assumes "q_limit options = Some 0" and "query t d options = Inr (evs, p)"
  shows "\<exists>q cq. build_queries t options = Inr (q, cq)
           \<and> sel_offset q = None \<and> sel_limit q = None
           \<and> Query (Select (table t) cq) \<notin> set evs
           \<and> (\<forall>s. Query s \<in> set evs \<longrightarrow> s = Select (table t) q)
           \<and> (\<forall>dto. p \<noteq> Resolved (Page dto))
           \<and> (\<forall>r. db_connect d = None \<and> db_query d (Select (table t) q) = Inr r
                  \<longrightarrow> p = Resolved (Rows (res_rows r)))"
proof -
  from assms(1) have "\<not> truthy_number (q_limit options)"
    by (simp add: truthy_number_def)
  from query_falsy_limit [OF this assms(2)] show ?thesis
    by (fastforce split: option.splits sum.splits)
qed

theorem query_with_limit_zero_is_plain_witness:
  "q_limit (request (Some 0) (Some 3)) = Some 0
   \<and> query sample_transport working_db (request (Some 0) (Some 3)) =
       Inr ([Connect, Query (Select (table sample_transport) (select_of None None)), Release],
            Resolved (Rows (res_rows sample_result)))
   \<and> Query (Select (table sample_transport) count_of)
       \<notin> set [Connect, Query (Select (table sample_transport) (select_of None None)), Release]"
proof -
  have l: "q_limit (request (Some 0) (Some 3)) = Some 0"
    by (simp add: request_def)
  have q: "query sample_transport working_db (request (Some 0) (Some 3)) =
       Inr ([Connect, Query (Select (table sample_transport) (select_of None None)), Release],
            Resolved (Rows (res_rows sample_result)))"
    by (simp add: query_def build_request_zero run_queries_def working_db_def l truthy_number_def)
  from query_with_limit_zero_is_plain [OF l q] l q show ?thesis
    by (simp add: build_request_zero)
qed

section \<open>JSON text: what is written reads back\<close>

subsection \<open>Numbers\<close>

lemma of_char_digit_char: "d < 10 \<Longrightarrow> (of_char (digit_char d) :: nat) = 48 + d"
  by (simp add: digit_char_def)

lemma is_digit_digit_char: "d < 10 \<Longrightarrow> is_digit (digit_char d)"
  by (simp add: is_digit_def of_char_digit_char)

lemma digit_val_digit_char: "d < 10 \<Longrightarrow> digit_val (digit_char d) = d"
  by (simp add: digit_val_def of_char_digit_char)

lemma digit_char_0: "digit_char 0 = CHR ''0''"
  by code_simp

lemma digit_char_zero: "d < 10 \<Longrightarrow> digit_char d = CHR ''0'' \<longleftrightarrow> d = 0"
proof
  assume "d < 10" and "digit_char d = CHR ''0''"
  then have "(of_char (digit_char d) :: nat) = of_char (CHR ''0'')" by simp
  with \<open>d < 10\<close> show "d = 0" by (simp add: of_char_digit_char)
next
  assume "d = 0" then show "digit_char d = CHR ''0''" by (simp add: digit_char_0)
qed

lemma show_nat_digits: "\<forall>c \<in> set (show_nat n). is_digit c"
proof (induction n rule: show_nat.induct)
  case (1 n)
  show ?case
  proof (cases "n < 10")
    case True
    then show ?thesis by (subst show_nat.simps) (simp add: is_digit_digit_char)
  next
    case False
    with 1 show ?thesis by (subst show_nat.simps) (simp add: is_digit_digit_char)
  qed
qed

lemma show_nat_nonempty: "show_nat n \<noteq> []"
  by (subst show_nat.simps) simp

lemma read_nat_snoc: "read_nat (ds @ [c]) = 10 * read_nat ds + digit_val c"
  by (simp add: read_nat_def)

lemma read_nat_show_nat: "read_nat (show_nat n) = n"
proof (induction n rule: show_nat.induct)
  case (1 n)
  show ?case
  proof (cases "n < 10")
    case True
    then show ?thesis by (subst show_nat.simps) (simp add: read_nat_def digit_val_digit_char)
  next
    case False
    with 1 have "read_nat (show_nat (n div 10)) = n div 10" by simp
    with False show ?thesis
      by (subst show_nat.simps) (simp add: read_nat_snoc digit_val_digit_char)
  qed
qed

lemma show_nat_leading_zero: "hd (show_nat n) = CHR ''0'' \<Longrightarrow> length (show_nat n) = 1"
proof (induction n rule: show_nat.induct)
  case (1 n)
  show ?case
  proof (cases "n < 10")
    case True
    then show ?thesis by (subst show_nat.simps) simp
  next
    case False
    then have s: "show_nat n = show_nat (n div 10) @ [digit_char (n mod 10)]"
      by (subst show_nat.simps) simp
    with "1.prems" have "hd (show_nat (n div 10)) = CHR ''0''"
      by (simp add: show_nat_nonempty)
    with 1 False have l: "length (show_nat (n div 10)) = 1" by simp
    from False have "n div 10 \<noteq> 0" by simp
    have "n div 10 < 10 \<or> \<not> n div 10 < 10" by simp
    then show ?thesis
    proof
      assume a: "n div 10 < 10"
      then have "show_nat (n div 10) = [digit_char (n div 10)]"
        by (subst show_nat.simps) simp
      with \<open>hd (show_nat (n div 10)) = CHR ''0''\<close> a have "n div 10 = 0"
        by (simp add: digit_char_zero)
      with \<open>n div 10 \<noteq> 0\<close> show ?thesis by simp
    next
      assume a: "\<not> n div 10 < 10"
      then have "show_nat (n div 10) = show_nat (n div 10 div 10) @ [digit_char (n div 10 mod 10)]"
        by (subst show_nat.simps) simp
      then have "length (show_nat (n div 10)) \<ge> 2"
        using show_nat_nonempty [of "n div 10 div 10"]
        by (cases "show_nat (n div 10 div 10)") auto
      with l show ?thesis by simp
    qed
  qed
qed

lemma takeWhile_digits:
  assumes "\<forall>c \<in> set ds. is_digit c" and "ends_number rest"
  shows "takeWhile is_digit (ds @ rest) = ds" and "dropWhile is_digit (ds @ rest) = rest"
  using assms by (induction ds) (auto simp: ends_number_def split: list.splits)

lemma hd_show_nat_digit: "is_digit (hd (show_nat n))"
  using show_nat_digits [of n] show_nat_nonempty [of n]
  by (cases "show_nat n") auto

lemma is_digit_not_minus: "is_digit c \<Longrightarrow> c \<noteq> CHR ''-''"
  by (auto simp: is_digit_def)

lemma read_number_show_int:
  assumes "ends_number rest"
  shows "read_number (show_int i @ rest) = Some (JNum i, rest)"
proof (cases "i < 0")
  case True
  then have s: "show_int i @ rest = CHR ''-'' # (show_nat (nat (- i)) @ rest)"
    by (simp add: show_int_def)
  have t: "takeWhile is_digit (show_nat (nat (- i)) @ rest) = show_nat (nat (- i))"
    and d: "dropWhile is_digit (show_nat (nat (- i)) @ rest) = rest"
    using takeWhile_digits [OF show_nat_digits assms] by simp_all
  have z: "\<not> (hd (show_nat (nat (- i))) = CHR ''0'' \<and> length (show_nat (nat (- i))) \<noteq> 1)"
    using show_nat_leading_zero by blast
  from True have "- int (nat (- i)) = i" by simp
  with t d z show ?thesis
    unfolding s read_number_def by (simp add: Let_def show_nat_nonempty read_nat_show_nat)
next
  case False
  then have s: "show_int i @ rest = show_nat (nat i) @ rest"
    by (simp add: show_int_def)
  have t: "takeWhile is_digit (show_nat (nat i) @ rest) = show_nat (nat i)"
    and d: "dropWhile is_digit (show_nat (nat i) @ rest) = rest"
    using takeWhile_digits [OF show_nat_digits assms] by simp_all
  have z: "\<not> (hd (show_nat (nat i)) = CHR ''0'' \<and> length (show_nat (nat i)) \<noteq> 1)"
    using show_nat_leading_zero by blast
  have m: "hd (show_nat (nat i) @ rest) \<noteq> CHR ''-''"
    using hd_show_nat_digit [of "nat i"] is_digit_not_minus
    by (simp add: show_nat_nonempty)
  from False have "int (nat i) = i" by simp
  with t d z m show ?thesis
    unfolding s read_number_def by (simp add: Let_def show_nat_nonempty read_nat_show_nat)
qed

subsection \<open>Strings\<close>

lemma hex_val_hex_char: "d < 16 \<Longrightarrow> hex_val (hex_char d) = Some d"
  by (simp add: hex_val_def hex_char_def Let_def)

lemma read_chars_escape:
  assumes "unescape e = Some c" and "e \<noteq> CHR ''u''" and "read_chars r = Some (s, rest)"
  shows "read_chars (CHR 0x5C # e # r) = Some (c # s, rest)"
  using assms by simp

lemma read_chars_control:
  assumes "(of_char c :: nat) < 32" and "read_chars r = Some (s, rest)"
  shows "read_chars ([CHR 0x5C, CHR ''u'', CHR ''0'', CHR ''0'',
                      hex_char (of_char c div 16), hex_char (of_char c mod 16)] @ r) =
           Some (c # s, rest)"
proof -
  from assms have h: "hex_val (hex_char (of_char c div 16)) = Some (of_char c div 16)"
    and l: "hex_val (hex_char (of_char c mod 16)) = Some (of_char c mod 16)"
    by (simp_all add: hex_val_hex_char)
  have "char_of (16 * ((of_char c :: nat) div 16) + of_char c mod 16) = c"
    by simp
  with h l assms(2) show ?thesis by simp
qed

lemma read_chars_plain:
  assumes "c \<noteq> CHR 0x22" and "c \<noteq> CHR 0x5C" and "\<not> (of_char c :: nat) < 32"
    and "read_chars r = Some (s, rest)"
  shows "read_chars (c # r) = Some (c # s, rest)"
  using assms by simp

lemma read_chars_quote_char:
  assumes r: "read_chars r = Some (s, rest)"
  shows "read_chars (quote_char c @ r) = Some (c # s, rest)"
proof -
  consider "c = CHR 0x08" | "c = CHR 0x09" | "c = CHR 0x0A" | "c = CHR 0x0C" | "c = CHR 0x0D"
    | "c = CHR 0x22" | "c = CHR 0x5C"
    | "c \<noteq> CHR 0x08" "c \<noteq> CHR 0x09" "c \<noteq> CHR 0x0A" "c \<noteq> CHR 0x0C" "c \<noteq> CHR 0x0D"
      "c \<noteq> CHR 0x22" "c \<noteq> CHR 0x5C" "(of_char c :: nat) < 32"
    | "c \<noteq> CHR 0x08" "c \<noteq> CHR 0x09" "c \<noteq> CHR 0x0A" "c \<noteq> CHR 0x0C" "c \<noteq> CHR 0x0D"
      "c \<noteq> CHR 0x22" "c \<noteq> CHR 0x5C" "\<not> (of_char c :: nat) < 32"
    by blast
  then show ?thesis
  proof cases
    case 1
    have "read_chars (CHR 0x5C # CHR ''b'' # r) = Some (CHR 0x08 # s, rest)"
      by (rule read_chars_escape [OF _ _ r]) (simp_all add: unescape_def)
    with 1 show ?thesis by (simp add: quote_char_def del: read_chars.simps)
  next
    case 2
    have "read_chars (CHR 0x5C # CHR ''t'' # r) = Some (CHR 0x09 # s, rest)"
      by (rule read_chars_escape [OF _ _ r]) (simp_all add: unescape_def)
    with 2 show ?thesis by (simp add: quote_char_def del: read_chars.simps)
  next
    case 3
    have "read_chars (CHR 0x5C # CHR ''n'' # r) = Some (CHR 0x0A # s, rest)"
      by (rule read_chars_escape [OF _ _ r]) (simp_all add: unescape_def)
    with 3 show ?thesis by (simp add: quote_char_def del: read_chars.simps)
  next
    case 4
    have "read_chars (CHR 0x5C # CHR ''f'' # r) = Some (CHR 0x0C # s, rest)"
      by (rule read_chars_escape [OF _ _ r]) (simp_all add: unescape_def)
    with 4 show ?thesis by (simp add: quote_char_def del: read_chars.simps)
  next
    case 5
    have "read_chars (CHR 0x5C # CHR ''r'' # r) = Some (CHR 0x0D # s, rest)"
      by (rule read_chars_escape [OF _ _ r]) (simp_all add: unescape_def)
    with 5 show ?thesis by (simp add: quote_char_def del: read_chars.simps)
  next
    case 6
    have "read_chars (CHR 0x5C # CHR 0x22 # r) = Some (CHR 0x22 # s, rest)"
      by (rule read_chars_escape [OF _ _ r]) (simp_all add: unescape_def)
    with 6 show ?thesis by (simp add: quote_char_def del: read_chars.simps)
  next
    case 7
    have "read_chars (CHR 0x5C # CHR 0x5C # r) = Some (CHR 0x5C # s, rest)"
      by (rule read_chars_escape [OF _ _ r]) (simp_all add: unescape_def)
    with 7 show ?thesis by (simp add: quote_char_def del: read_chars.simps)
  next
    case 8
    then have "quote_char c = [CHR 0x5C, CHR ''u'', CHR ''0'', CHR ''0'',
                      hex_char (of_char c div 16), hex_char (of_char c mod 16)]"
      by (simp add: quote_char_def)
    with read_chars_control [OF 8(8) r] show ?thesis by (simp only:)
  next
    case 9
    then have "quote_char c = [c]" by (simp add: quote_char_def)
    with read_chars_plain [OF 9(6) 9(7) 9(8) r] show ?thesis by (simp del: read_chars.simps)
  qed
qed

lemma read_chars_quoted:
  "read_chars (concat (map quote_char s) @ CHR 0x22 # rest) = Some (s, rest)"
proof (induction s)
  case Nil
  show ?case by simp
next
  case (Cons c s)
  have "read_chars (concat (map quote_char (c # s)) @ CHR 0x22 # rest) =
        read_chars (quote_char c @ (concat (map quote_char s) @ CHR 0x22 # rest))"
    by simp
  also have "\<dots> = Some (c # s, rest)"
    by (rule read_chars_quote_char [OF Cons.IH])
  finally show ?case .
qed

lemma quote_string_unfold: "quote_string s @ rest = CHR 0x22 # (concat (map quote_char s) @ CHR 0x22 # rest)"
  by (simp add: quote_string_def)

subsection \<open>Values\<close>

lemma serializable_stringify: "serializable v \<Longrightarrow> JSON_stringify v = Some (render v)"
  by (cases v) (simp_all add: render_def)

lemma render_simps:
  "render JNull = ''null''"
  "render (JBool True) = ''true''"
  "render (JBool False) = ''false''"
  "render (JNum i) = show_int i"
  "render (JStr s) = quote_string s"
  "render (JArr xs) = ''['' @ join_comma (map render xs) @ '']''"
  by (simp_all add: render_def cong: map_cong)

lemma render_obj:
  assumes "\<forall>kv \<in> set kvs. serializable (snd kv)"
  shows "render (JObj kvs) = ''{'' @ join_comma (map member kvs) @ ''}''"
proof -
  have "concat (map (\<lambda>kv. case JSON_stringify (snd kv) of
                             None \<Rightarrow> []
                           | Some t \<Rightarrow> [quote_string (fst kv) @ '':'' @ t]) kvs) = map member kvs"
    using assms by (induction kvs) (simp_all add: member_def serializable_stringify)
  then show ?thesis by (simp add: render_def)
qed

lemma ends_number_simps:
  "ends_number []"
  "ends_number (CHR '','' # r)"
  "ends_number (CHR '']'' # r)"
  "ends_number (CHR ''}'' # r)"
  by (simp_all add: ends_number_def is_digit_def)

lemma show_int_start:
  "\<exists>c r. show_int i = c # r \<and> (c = CHR ''-'' \<or> is_digit c)"
proof (cases "i < 0")
  case True
  then show ?thesis by (simp add: show_int_def)
next
  case False
  obtain c r where "show_nat (nat i) = c # r"
    using show_nat_nonempty [of "nat i"] by (cases "show_nat (nat i)") auto
  with hd_show_nat_digit [of "nat i"] False show ?thesis
    by (simp add: show_int_def)
qed

lemma number_start:
  assumes "c = CHR ''-'' \<or> is_digit c"
  shows "c \<noteq> CHR ''n''" "c \<noteq> CHR ''t''" "c \<noteq> CHR ''f''" "c \<noteq> CHR 0x22"
    "c \<noteq> CHR ''[''" "c \<noteq> CHR ''{''" "c \<noteq> CHR '']''"
  using assms by (auto simp: is_digit_def)

lemma render_start:
  assumes "serializable v"
  shows "\<exists>c r. render v = c # r \<and> c \<noteq> CHR '']''"
proof (cases v)
  case JUndefined
  with assms show ?thesis by simp
next
  case JNull
  then show ?thesis by (simp add: render_simps)
next
  case (JBool b)
  then show ?thesis by (cases b) (simp_all add: render_simps)
next
  case (JNum i)
  from show_int_start [of i] obtain c r where "show_int i = c # r" and "c = CHR ''-'' \<or> is_digit c"
    by blast
  with JNum number_start(7) show ?thesis by (simp add: render_simps)
next
  case (JStr s)
  then show ?thesis by (simp add: render_simps quote_string_def)
next
  case (JArr xs)
  then show ?thesis by (simp add: render_simps)
next
  case (JObj kvs)
  with assms show ?thesis by (simp add: render_obj)
qed

lemma read_elements_join:
  assumes "\<forall>x \<in> set xs. reads x" and "xs \<noteq> []"
    and "length (join_comma (map render xs)) < n"
  shows "read_elements n (join_comma (map render xs) @ CHR '']'' # rest) = Some (xs, rest)"
  using assms
proof (induction xs arbitrary: n)
  case Nil
  then show ?case by simp
next
  case (Cons x xs)
  from Cons.prems(3) obtain m where n: "n = Suc m" by (cases n) auto
  from Cons.prems(1) have rx: "reads x" by simp
  show ?case
  proof (cases xs)
    case Nil
    with Cons.prems(3) n have "length (render x) \<le> m" by simp
    with rx have "read_value m (render x @ CHR '']'' # rest) = Some (x, CHR '']'' # rest)"
      by (simp add: reads_def ends_number_simps)
    with Nil n show ?thesis by simp
  next
    case (Cons y ys)
    with Cons.prems(3) n have l: "length (render x) \<le> m"
      and l': "length (join_comma (map render xs)) < m"
      by simp_all
    let ?tail = "CHR '','' # join_comma (map render xs) @ CHR '']'' # rest"
    from rx l have "read_value m (render x @ ?tail) = Some (x, ?tail)"
      by (simp add: reads_def ends_number_simps)
    moreover from Cons.IH [of m] Cons.prems(1) l' Cons
    have "read_elements m (join_comma (map render xs) @ CHR '']'' # rest) = Some (xs, rest)"
      by simp
    ultimately show ?thesis using Cons n by simp
  qed
qed

lemma read_member_text:
  assumes "reads (snd kv)" and "length (member kv) < Suc m" and "ends_number tail"
  shows "\<exists>r. member kv @ tail = CHR 0x22 # r
           \<and> read_chars r = Some (fst kv, CHR '':'' # render (snd kv) @ tail)
           \<and> read_value m (render (snd kv) @ tail) = Some (snd kv, tail)"
proof -
  let ?r = "concat (map quote_char (fst kv)) @ CHR 0x22 # (CHR '':'' # render (snd kv) @ tail)"
  have "member kv @ tail = CHR 0x22 # ?r"
    by (simp add: member_def quote_string_def)
  moreover have "read_chars ?r = Some (fst kv, CHR '':'' # render (snd kv) @ tail)"
    by (rule read_chars_quoted)
  moreover from assms(2) have "length (render (snd kv)) \<le> m"
    by (simp add: member_def)
  with assms(1,3) have "read_value m (render (snd kv) @ tail) = Some (snd kv, tail)"
    by (simp add: reads_def)
  ultimately show ?thesis by blast
qed

lemma read_members_join:
  assumes "\<forall>kv \<in> set kvs. reads (snd kv)" and "kvs \<noteq> []"
    and "length (join_comma (map member kvs)) < n"
  shows "read_members n (join_comma (map member kvs) @ CHR ''}'' # rest) = Some (kvs, rest)"
  using assms
proof (induction kvs arbitrary: n)
  case Nil
  then show ?case by simp
next
  case (Cons kv kvs)
  from Cons.prems(3) obtain m where n: "n = Suc m" by (cases n) auto
  from Cons.prems(1) have rx: "reads (snd kv)" by simp
  show ?case
  proof (cases kvs)
    case Nil
    with Cons.prems(3) n have "length (member kv) < Suc m" by simp
    from read_member_text [OF rx this ends_number_simps(4), of rest]
    obtain r where "member kv @ CHR ''}'' # rest = CHR 0x22 # r"
      and "read_chars r = Some (fst kv, CHR '':'' # render (snd kv) @ CHR ''}'' # rest)"
      and "read_value m (render (snd kv) @ CHR ''}'' # rest) = Some (snd kv, CHR ''}'' # rest)"
      by blast
    with Nil n show ?thesis by simp
  next
    case (Cons kv' kvs')
    with Cons.prems(3) n have l: "length (member kv) < Suc m"
      and l': "length (join_comma (map member kvs)) < m"
      by simp_all
    let ?tail = "CHR '','' # join_comma (map member kvs) @ CHR ''}'' # rest"
    from read_member_text [OF rx l ends_number_simps(2), of "join_comma (map member kvs) @ CHR ''}'' # rest"]
    obtain r where "member kv @ ?tail = CHR 0x22 # r"
      and "read_chars r = Some (fst kv, CHR '':'' # render (snd kv) @ ?tail)"
      and "read_value m (render (snd kv) @ ?tail) = Some (snd kv, ?tail)"
      by blast
    moreover from Cons.IH [of m] Cons.prems(1) l' Cons
    have "read_members m (join_comma (map member kvs) @ CHR ''}'' # rest) = Some (kvs, rest)"
      by simp
    ultimately show ?thesis using Cons n by simp
  qed
qed

lemma reads_null: "reads JNull"
  unfolding reads_def
proof (intro allI impI)
  fix n rest assume "length (render JNull) \<le> n"
  then obtain m where "n = Suc m" by (cases n) (auto simp: render_simps)
  then show "read_value n (render JNull @ rest) = Some (JNull, rest)"
    by (simp add: render_simps read_literal_def)
qed

lemma reads_bool: "reads (JBool b)"
  unfolding reads_def
proof (intro allI impI)
  fix n rest assume "length (render (JBool b)) \<le> n"
  then obtain m where "n = Suc m" by (cases n; cases b) (auto simp: render_simps)
  then show "read_value n (render (JBool b) @ rest) = Some (JBool b, rest)"
    by (cases b) (simp_all add: render_simps read_literal_def)
qed

lemma reads_num: "reads (JNum i)"
  unfolding reads_def
proof (intro allI impI)
  fix n rest assume l: "length (render (JNum i)) \<le> n" and e: "ends_number rest"
  from show_int_start [of i] obtain c r where s: "show_int i = c # r"
    and c: "c = CHR ''-'' \<or> is_digit c" by blast
  from l s obtain m where n: "n = Suc m" by (cases n) (auto simp: render_simps)
  have "read_value (Suc m) (c # r @ rest) = read_number (c # r @ rest)"
    using number_start [OF c] by simp
  also have "\<dots> = read_number (show_int i @ rest)"
    by (simp add: s)
  also have "\<dots> = Some (JNum i, rest)"
    by (rule read_number_show_int [OF e])
  finally show "read_value n (render (JNum i) @ rest) = Some (JNum i, rest)"
    by (simp add: render_simps s n)
qed

lemma reads_str: "reads (JStr s)"
  unfolding reads_def
proof (intro allI impI)
  fix n rest assume "length (render (JStr s)) \<le> n"
  then obtain m where "n = Suc m" by (cases n) (auto simp: render_simps quote_string_def)
  then show "read_value n (render (JStr s) @ rest) = Some (JStr s, rest)"
    by (simp add: render_simps quote_string_unfold read_chars_quoted)
qed

lemma reads_arr:
  assumes "\<forall>x \<in> set xs. reads x" and "\<forall>x \<in> set xs. serializable x"
  shows "reads (JArr xs)"
  unfolding reads_def
proof (intro allI impI)
  fix n rest assume l: "length (render (JArr xs)) \<le> n"
  then obtain m where n: "n = Suc m" by (cases n) (auto simp: render_simps)
  show "read_value n (render (JArr xs) @ rest) = Some (JArr xs, rest)"
  proof (cases xs)
    case Nil
    with n show ?thesis by (simp add: render_simps)
  next
    case (Cons x xs')
    with assms(2) have "serializable x" by simp
    from render_start [OF this] obtain c r where cr: "render x = c # r" and c: "c \<noteq> CHR '']''"
      by blast
    let ?body = "join_comma (map render xs) @ CHR '']'' # rest"
    from Cons cr have "\<exists>r'. ?body = c # r'"
      by (cases xs') simp_all
    then obtain r' where b: "?body = c # r'" by blast
    from l n have "length (join_comma (map render xs)) < m"
      by (simp add: render_simps)
    with assms(1) Cons have "read_elements m ?body = Some (xs, rest)"
      by (intro read_elements_join) simp_all
    with b c have "read_value (Suc m) (CHR ''['' # ?body) = Some (JArr xs, rest)"
      by simp
    with n show ?thesis by (simp add: render_simps)
  qed
qed

lemma reads_obj:
  assumes "\<forall>kv \<in> set kvs. reads (snd kv)" and "\<forall>kv \<in> set kvs. serializable (snd kv)"
  shows "reads (JObj kvs)"
  unfolding reads_def
proof (intro allI impI)
  fix n rest assume l: "length (render (JObj kvs)) \<le> n"
  then obtain m where n: "n = Suc m" by (cases n) (auto simp: render_obj [OF assms(2)])
  show "read_value n (render (JObj kvs) @ rest) = Some (JObj kvs, rest)"
  proof (cases kvs)
    case Nil
    with n show ?thesis by (simp add: render_obj)
  next
    case (Cons kv kvs')
    let ?body = "join_comma (map member kvs) @ CHR ''}'' # rest"
    from Cons have "\<exists>r'. ?body = CHR 0x22 # r'"
      by (cases kvs') (simp_all add: member_def quote_string_def)
    then obtain r' where b: "?body = CHR 0x22 # r'" by blast
    from l n have "length (join_comma (map member kvs)) < m"
      by (simp add: render_obj [OF assms(2)])
    with assms(1) Cons have "read_members m ?body = Some (kvs, rest)"
      by (intro read_members_join) simp_all
    with b have "read_value (Suc m) (CHR ''{'' # ?body) = Some (JObj kvs, rest)"
      by simp
    with n show ?thesis by (simp add: render_obj [OF assms(2)])
  qed
qed

lemma serializable_reads: "serializable v \<Longrightarrow> reads v"
proof (induction v)
  case JUndefined
  then show ?case by simp
next
  case JNull
  show ?case by (rule reads_null)
next
  case (JBool b)
  show ?case by (rule reads_bool)
next
  case (JNum i)
  show ?case by (rule reads_num)
next
  case (JStr s)
  show ?case by (rule reads_str)
next
  case (JArr xs)
  then show ?case by (intro reads_arr) simp_all
next
  case (JObj kvs)
  have "\<forall>kv \<in> set kvs. serializable (snd kv)"
    using JObj.prems by simp
  moreover have "\<forall>kv \<in> set kvs. reads (snd kv)"
  proof
    fix kv assume m: "kv \<in> set kvs"
    obtain k v where kv: "kv = (k, v)" by (cases kv)
    with m JObj.prems have "serializable v" by auto
    with JObj.IH [OF m, of v] kv show "reads (snd kv)" by simp
  qed
  ultimately show ?case by (intro reads_obj)
qed

text \<open>The reader is not lenient: some texts that are not JSON, and one that is.\<close>

lemma JSON_parse_samples:
  "JSON_parse ''[1,,2]'' = None"
  "JSON_parse ''[01]'' = None"
  "JSON_parse ''nul'' = None"
  "JSON_parse ''[1,2]]'' = None"
  "JSON_parse ''{a:1}'' = None"
  "JSON_parse ''[true,null,-10,[],{}]'' = Some (JArr [JBool True, JNull, JNum (- 10), JArr [], JObj []])"
  by code_simp+

lemma parse_stringify:
  assumes "serializable v"
  shows "\<exists>txt. JSON_stringify v = Some txt \<and> JSON_parse txt = Some v"
proof -
  from serializable_reads [OF assms]
  have "length (render v) \<le> length (render v) \<longrightarrow> ends_number [] \<longrightarrow>
        read_value (length (render v)) (render v @ []) = Some (v, [])"
    unfolding reads_def by blast
  then have "read_value (length (render v)) (render v @ []) = Some (v, [])"
    by (simp add: ends_number_simps)
  then have "JSON_parse (render v) = Some v"
    by (simp add: JSON_parse_def)
  with serializable_stringify [OF assms] show ?thesis by simp
qed

section \<open>Hydration\<close>

lemma timezone_suffix_cases:
  "timezone t = None \<Longrightarrow> timezone_suffix t = []"
  "timezone t = Some [] \<Longrightarrow> timezone_suffix t = []"
  "timezone t = Some z \<Longrightarrow> z \<noteq> [] \<Longrightarrow> timezone_suffix t = '' at time zone '' @ [CHR 0x27] @ z @ [CHR 0x27]"
  by (simp_all add: timezone_suffix_def truthy_string_def)

text \<open>The timezone the transport holds is the configured one when that is a non-empty string.\<close>

lemma new_transport_timezone:
  "timezone (new_transport k options) =
     (case opt_timezone options of None \<Rightarrow> None | Some z \<Rightarrow> if z = [] then None else Some z)"
  by (simp add: new_transport_def Let_def truthy_string_def split: option.splits)

lemma hydrateColumn_timestamp:
  assumes "col_dataType c = ''TIMESTAMP'' \<or> col_dataType c = ''TIMESTAMPTZ''"
  shows "col_value (hydrateColumn t args c) = JStr (''NOW()'' @ timezone_suffix t)"
proof -
  from assms have j: "col_dataType c \<noteq> ''JSON''"
    and m: "col_dataType c \<in> set [''TIMESTAMP'', ''TIMESTAMPTZ'']"
    by auto
  show ?thesis
    unfolding hydrateColumn_def Let_def
    using j m by simp
qed

text \<open>
  C6. For a column of type TIMESTAMP or TIMESTAMPTZ the hydrated value is one
  expression \<open>e\<close>, the same for every record (so never the value the caller supplied):
  it starts with \<open>NOW()\<close>; it contains the transport's timezone string verbatim, in the
  form \<open>NOW() at time zone '<timezone>'\<close> when that string is not empty; and with no
  timezone it is \<open>NOW()\<close> alone.
\<close>

theorem timestamp_column_is_now:
  assumes "i < length cols"
    and "col_dataType (cols ! i) = ''TIMESTAMP'' \<or> col_dataType (cols ! i) = ''TIMESTAMPTZ''"
  shows "\<exists>e. (\<forall>args. col_value (hydrateColumns t args cols ! i) = JStr e)
           \<and> prefix ''NOW()'' e
           \<and> (\<forall>z. timezone t = Some z \<longrightarrow> sublist z e)
           \<and> (\<forall>z. timezone t = Some z \<and> z \<noteq> [] \<longrightarrow>
                  e = ''NOW()'' @ '' at time zone '' @ [CHR 0x27] @ z @ [CHR 0x27])
           \<and> (timezone t = None \<longrightarrow> e = ''NOW()'')"
proof (intro exI conjI allI impI)
  fix args
  show "col_value (hydrateColumns t args cols ! i) = JStr (''NOW()'' @ timezone_suffix t)"
    using assms hydrateColumn_timestamp [of "cols ! i" t args]
    by (simp add: hydrateColumns_def)
next
  show "prefix ''NOW()'' (''NOW()'' @ timezone_suffix t)"
    by (rule prefixI) (rule refl)
next
  fix z assume z: "timezone t = Some z"
  show "sublist z (''NOW()'' @ timezone_suffix t)"
  proof (cases "z = []")
    case True
    then show ?thesis by simp
  next
    case False
    have "''NOW()'' @ timezone_suffix t = (''NOW()'' @ '' at time zone '' @ [CHR 0x27]) @ z @ [CHR 0x27]"
      unfolding timezone_suffix_cases(3) [OF z False] by (simp only: append_assoc)
    then show ?thesis
      unfolding sublist_def by (intro exI)
  qed
next
  fix z assume "timezone t = Some z \<and> z \<noteq> []"
  then have "timezone_suffix t = '' at time zone '' @ [CHR 0x27] @ z @ [CHR 0x27]"
    by (intro timezone_suffix_cases(3)) auto
  then show "''NOW()'' @ timezone_suffix t = ''NOW()'' @ '' at time zone '' @ [CHR 0x27] @ z @ [CHR 0x27]"
    by (rule arg_cong)
next
  assume "timezone t = None"
  then show "''NOW()'' @ timezone_suffix t = ''NOW()''"
    by (simp only: timezone_suffix_cases(1) append_Nil2)
qed

theorem timestamp_column_is_now_witness:
  "col_value (hydrateColumns sample_transport sample_args (tbl_columns (table sample_transport)) ! 3)
     = JStr (''NOW() at time zone '' @ [CHR 0x27] @ ''utc+2'' @ [CHR 0x27])
   \<and> sublist ''utc+2'' (''NOW() at time zone '' @ [CHR 0x27] @ ''utc+2'' @ [CHR 0x27])"
proof -
  let ?cols = "tbl_columns (table sample_transport)"
  have c: "?cols ! 3 = define_column \<lparr>def_name = ''timestamp'', def_dataType = ''TIMESTAMP'', def_defaultValue = JUndefined\<rparr>"
    and n: "(3::nat) < length ?cols"
    by (simp_all add: sample_transport_fields sample_constants_def)
  from c have d: "col_dataType (?cols ! 3) = ''TIMESTAMP'' \<or> col_dataType (?cols ! 3) = ''TIMESTAMPTZ''"
    by (simp add: define_column_def)
  from timestamp_column_is_now [OF n d, of sample_transport]
  obtain e where e: "\<forall>args. col_value (hydrateColumns sample_transport args ?cols ! 3) = JStr e"
    and z: "\<forall>z. timezone sample_transport = Some z \<longrightarrow> sublist z e"
    and f: "\<forall>z. timezone sample_transport = Some z \<and> z \<noteq> [] \<longrightarrow>
                  e = ''NOW()'' @ '' at time zone '' @ [CHR 0x27] @ z @ [CHR 0x27]"
    by blast
  from f have "e = ''NOW() at time zone '' @ [CHR 0x27] @ ''utc+2'' @ [CHR 0x27]"
    by (simp add: sample_transport_fields)
  with e z show ?thesis
    by (simp add: sample_transport_fields)
qed

text \<open>
  C8. For every column list and every record, hydration gives one entry per column, in
  the declared order, each with the name and type of its column; and the insert
  statement that \<open>log\<close> builds holds no column of type SERIAL.
\<close>

theorem hydrate_keeps_columns_insert_skips_serial:
  "length (hydrateColumns t args cols) = length cols
   \<and> map col_name (hydrateColumns t args cols) = map col_name cols
   \<and> map col_dataType (hydrateColumns t args cols) = map col_dataType cols
   \<and> (\<exists>cs. insert_statement t args = Insert (table t) cs \<and> ''SERIAL'' \<notin> set (map col_dataType cs))"
  by (auto simp: hydrateColumns_def hydrateColumn_def insert_statement_def Let_def)

theorem hydrate_keeps_columns_insert_skips_serial_witness:
  "map col_name (hydrateColumns sample_transport sample_args (tbl_columns (table sample_transport)))
     = [''id'', ''message'', ''meta'', ''timestamp'']
   \<and> (\<exists>cs. insert_statement sample_transport sample_args = Insert (table sample_transport) cs
         \<and> map col_name cs = [''message'', ''meta'', ''timestamp''])"
proof -
  have "map col_name (tbl_columns (table sample_transport)) = [''id'', ''message'', ''meta'', ''timestamp'']"
    by (simp add: sample_transport_fields sample_constants_def define_column_def)
  moreover have "map col_name (filter (\<lambda>c. col_dataType c \<noteq> ''SERIAL'')
      (hydrateColumns sample_transport sample_args (tbl_columns (table sample_transport))))
       = [''message'', ''meta'', ''timestamp'']"
    by (simp add: sample_transport_fields sample_constants_def define_column_def hydrateColumns_def
        hydrateColumn_def Let_def)
  ultimately show ?thesis
    using hydrate_keeps_columns_insert_skips_serial [of sample_transport sample_args "tbl_columns (table sample_transport)"]
    by (simp add: insert_statement_def)
qed

text \<open>
  C7. For a column of type JSON: when the record's value for the column is
  serializable (null, a boolean, a number, a string, or an array or object of such
  values, nested to any depth), the hydrated value is a text that the JSON reader
  accepts and reads back as exactly that value; and when the record has no such field,
  hydration still returns a column, whose value is undefined.
\<close>

theorem json_column_holds_json_text:
  assumes "i < length cols" and "col_dataType (cols ! i) = ''JSON''"
  shows "(serializable (prop_get args (col_name (cols ! i))) \<longrightarrow>
            (\<exists>txt. col_value (hydrateColumns t args cols ! i) = JStr txt
               \<and> JSON_parse txt = Some (prop_get args (col_name (cols ! i)))))
       \<and> (map_of args (col_name (cols ! i)) = None \<longrightarrow>
            col_value (hydrateColumns t args cols ! i) = JUndefined)"
proof -
  let ?v = "prop_get args (col_name (cols ! i))"
  have h: "col_value (hydrateColumns t args cols ! i) =
             (case JSON_stringify ?v of None \<Rightarrow> JUndefined | Some s \<Rightarrow> JStr s)"
    using assms by (simp add: hydrateColumns_def hydrateColumn_def Let_def)
  have "\<exists>txt. col_value (hydrateColumns t args cols ! i) = JStr txt \<and> JSON_parse txt = Some ?v"
    if "serializable ?v"
  proof -
    from parse_stringify [OF that] obtain j where "JSON_stringify ?v = Some j"
      and "JSON_parse j = Some ?v" by blast
    with h show ?thesis by simp
  qed
  moreover have "col_value (hydrateColumns t args cols ! i) = JUndefined"
    if "map_of args (col_name (cols ! i)) = None"
    using that h by (simp add: prop_get_def)
  ultimately show ?thesis by blast
qed

theorem json_column_holds_json_text_witness:
  "serializable sample_meta
   \<and> col_value (hydrateColumns sample_transport sample_json_args (tbl_columns (table sample_transport)) ! 2)
       = JStr (the (JSON_stringify sample_meta))
   \<and> JSON_parse (the (JSON_stringify sample_meta)) = Some sample_meta
   \<and> col_value (hydrateColumns sample_transport sample_args (tbl_columns (table sample_transport)) ! 2)
       = JUndefined"
proof -
  let ?cols = "tbl_columns (table sample_transport)"
  have c: "?cols ! 2 = define_column \<lparr>def_name = ''meta'', def_dataType = ''JSON'', def_defaultValue = JUndefined\<rparr>"
    and n: "(2::nat) < length ?cols"
    by (simp_all add: sample_transport_fields sample_constants_def)
  from c have d: "col_dataType (?cols ! 2) = ''JSON''" and m: "col_name (?cols ! 2) = ''meta''"
    by (simp_all add: define_column_def)
  have s: "serializable sample_meta"
    by (simp add: sample_meta_def)
  have g: "prop_get sample_json_args ''meta'' = sample_meta"
    and a: "map_of sample_args ''meta'' = None"
    by (simp_all add: prop_get_def sample_json_args_def sample_args_def)
  from json_column_holds_json_text [OF n d, of sample_json_args sample_transport] s g m
  obtain j where t: "col_value (hydrateColumns sample_transport sample_json_args ?cols ! 2) = JStr j"
    and p: "JSON_parse j = Some sample_meta"
    by auto
  from t n d m g have "j = the (JSON_stringify sample_meta)"
    by (simp add: hydrateColumns_def hydrateColumn_def Let_def serializable_stringify [OF s])
  moreover from json_column_holds_json_text [OF n d, of sample_args sample_transport] a m
  have "col_value (hydrateColumns sample_transport sample_args ?cols ! 2) = JUndefined"
    by simp
  ultimately show ?thesis using s t p by simp
qed

lemma sample_meta_text:
  "JSON_stringify sample_meta =
     Some (''{'' @ [CHR 0x22] @ ''tags'' @ [CHR 0x22] @ '':['' @ [CHR 0x22] @ ''a'' @ [CHR 0x22]
           @ '',null],'' @ [CHR 0x22] @ ''n'' @ [CHR 0x22] @ '':-3}'')"
  by code_simp

section \<open>Writing\<close>

text \<open>
  C9. On a silent transport, for every record and every database, \<open>log\<close> makes one
  call, the callback with no error and the result true: it does not connect, emits
  nothing, and returns the transport as it was.
\<close>

theorem silent_log_only_calls_back:
  assumes "silent t"
  shows "log t d args = (t, [Callback (Value JNull) (Value (JBool True))])"
  using assms by (simp add: log_def)

theorem silent_log_only_calls_back_witness:
  "silent (sample_transport\<lparr>silent := True\<rparr>)
   \<and> log (sample_transport\<lparr>silent := True\<rparr>) failing_db sample_args
       = (sample_transport\<lparr>silent := True\<rparr>, [Callback (Value JNull) (Value (JBool True))])"
proof -
  have s: "silent (sample_transport\<lparr>silent := True\<rparr>)" by simp
  from silent_log_only_calls_back [OF s] s show ?thesis by simp
qed

section \<open>Errors\<close>

text \<open>
  C2, as the claim states it, fails. On the sample options, with a database whose
  statements all fail, the table creation fails and the constructor still returns the
  transport to its caller; the client is released, and the error's stack text is thrown
  inside the promise chain that nothing awaits.
\<close>

theorem constructor_returns_despite_failed_creation:
  "db_connect failing_db = None
   \<and> db_query failing_db (CreateIfNotExists (table sample_transport)) = Inl sample_error
   \<and> constructor sample_constants failing_db sample_options =
       Inr (sample_transport,
            [Connect, Query (CreateIfNotExists (table sample_transport)), Release],
            Rejected (Value (JStr (err_stack sample_error))))"
proof -
  have "truthy_string (opt_connectionString sample_options)"
    by (simp add: sample_options_def truthy_string_def)
  then show ?thesis
    by (simp add: constructor_def create_table_def failing_db_def sample_transport_def Let_def)
qed

text \<open>
  C2, amended. When the connection string is given, the connection is acquired and the
  table creation fails with \<open>e\<close>: the constructor returns the transport; the calls made
  are connect, the creation statement and one release; and the detached promise chain
  ends rejected with the stack text of \<open>e\<close>.
\<close>

theorem failed_creation_rejects_detached_chain:
  assumes "truthy_string (opt_connectionString options)"
    and "db_connect d = None"
    and "db_query d (CreateIfNotExists (table (new_transport k options))) = Inl e"
  shows "constructor k d options =
           Inr (new_transport k options,
                [Connect, Query (CreateIfNotExists (table (new_transport k options))), Release],
                Rejected (Value (JStr (err_stack e))))"
  using assms by (simp add: constructor_def create_table_def Let_def)

theorem failed_creation_rejects_detached_chain_witness:
  "truthy_string (opt_connectionString sample_options)
   \<and> length (fst (snd (projr (constructor sample_constants failing_db sample_options)))) = 3
   \<and> snd (snd (projr (constructor sample_constants failing_db sample_options)))
       = Rejected (Value (JStr (err_stack sample_error)))"
proof -
  have a: "truthy_string (opt_connectionString sample_options)"
    by (simp add: sample_options_def truthy_string_def)
  have b: "db_connect failing_db = None"
    and c: "db_query failing_db (CreateIfNotExists (table (new_transport sample_constants sample_options))) = Inl sample_error"
    by (simp_all add: failing_db_def)
  from failed_creation_rejects_detached_chain [OF a b c] a show ?thesis
    by simp
qed

text \<open>
  When \<open>emit\<close> of the event \<open>error\<close> returns: a listener of \<open>error\<close> is registered and
  none of the listeners throws.
\<close>

lemma emit_error_Returned:
  "emit_error t p = Returned \<longleftrightarrow>
     listeners t ''error'' \<noteq> [] \<and> run_listeners (listeners t ''error'') p = None"
  by (simp add: emit_error_def split: option.splits)

text \<open>
  A failed insert, in full: the stack text is emitted, and the callback is called with it
  when and only when the emit returns.
\<close>

lemma log_insert_failure:
  assumes "\<not> silent t" and "db_connect d = None"
    and "db_query d (insert_statement t args) = Inl e"
  shows "log t d args =
           (t, [Connect, Query (insert_statement t args), Release,
                Emit ''error'' (Value (JStr (err_stack e)))]
               @ (if emit_error t (Value (JStr (err_stack e))) = Returned
                  then [Callback (Value (JStr (err_stack e))) (Value JUndefined)]
                  else []))"
  using assms by (simp add: log_def log_catch_def split: emit_outcome.splits)

text \<open>
  C3, as the claim states it, fails. On the sample transport with a listener that
  returns, and a database whose insert fails with the sample error, the listener of the
  error event and the callback's error slot receive the string held in the error's
  \<open>stack\<close> field, which is not the error value. On the sample transport as constructed,
  with no listener of the error event, the emit throws and the callback is not called.
\<close>

theorem log_delivers_stack_not_error:
  "db_connect failing_db = None
   \<and> db_query failing_db (insert_statement sample_transport sample_args) = Inl sample_error
   \<and> snd (log listening_transport failing_db sample_args) =
       [Connect, Query (insert_statement sample_transport sample_args), Release,
        Emit ''error'' (Value (JStr (err_stack sample_error))),
        Callback (Value (JStr (err_stack sample_error))) (Value JUndefined)]
   \<and> Value (JStr (err_stack sample_error)) \<noteq> ErrorObject sample_error
   \<and> snd (log sample_transport failing_db sample_args) =
       [Connect, Query (insert_statement sample_transport sample_args), Release,
        Emit ''error'' (Value (JStr (err_stack sample_error)))]"
proof -
  have c: "db_connect failing_db = None" and q: "db_query failing_db s = Inl sample_error" for s
    by (simp_all add: failing_db_def)
  have a: "\<not> silent listening_transport" and b: "\<not> silent sample_transport"
    by (simp_all add: listening_transport_fields sample_transport_fields)
  from log_insert_failure [OF a c q] log_insert_failure [OF b c q] c q show ?thesis
    by (simp add: listening_transport_fields emit_error_sample_transport insert_statement_listening)
qed

text \<open>
  C3, amended. When the connection is acquired and the insert statement of a write
  fails with \<open>e\<close>, on a transport that has a listener of the error event and whose
  listeners of that event all return: the statement is issued once, the client is
  released, and the stack text of \<open>e\<close> is the payload of the error event and the
  callback's error argument. When the connection is acquired and the select statement
  of a read fails with \<open>e\<close>, the statement is issued once, the client is released, and
  the read is rejected with the stack text of \<open>e\<close>.
\<close>

theorem statement_errors_deliver_stack:
  "(\<not> silent t \<and> db_connect d = None \<and> db_query d (insert_statement t args) = Inl e
      \<and> listeners t ''error'' \<noteq> []
      \<and> run_listeners (listeners t ''error'') (Value (JStr (err_stack e))) = None \<longrightarrow>
      log t d args =
        (t, [Connect, Query (insert_statement t args), Release,
             Emit ''error'' (Value (JStr (err_stack e))),
             Callback (Value (JStr (err_stack e))) (Value JUndefined)]))
   \<and> (build_queries t options = Inr (q, cq) \<and> db_connect d = None
        \<and> db_query d (Select (table t) q) = Inl e \<longrightarrow>
      query t d options =
        Inr ([Connect, Query (Select (table t) q), Release], Rejected (Value (JStr (err_stack e)))))"
proof (intro conjI impI)
  assume h: "\<not> silent t \<and> db_connect d = None \<and> db_query d (insert_statement t args) = Inl e
      \<and> listeners t ''error'' \<noteq> []
      \<and> run_listeners (listeners t ''error'') (Value (JStr (err_stack e))) = None"
  then have "emit_error t (Value (JStr (err_stack e))) = Returned"
    by (simp add: emit_error_Returned)
  with h log_insert_failure [of t d args e]
  show "log t d args =
        (t, [Connect, Query (insert_statement t args), Release,
             Emit ''error'' (Value (JStr (err_stack e))),
             Callback (Value (JStr (err_stack e))) (Value JUndefined)])"
    by simp
next
  assume "build_queries t options = Inr (q, cq) \<and> db_connect d = None
        \<and> db_query d (Select (table t) q) = Inl e"
  then show "query t d options =
        Inr ([Connect, Query (Select (table t) q), Release], Rejected (Value (JStr (err_stack e))))"
    by (simp add: query_def run_queries_def)
qed

theorem statement_errors_deliver_stack_witness:
  "listeners listening_transport ''error'' \<noteq> []
   \<and> run_listeners (listeners listening_transport ''error'') (Value (JStr (err_stack sample_error))) = None
   \<and> snd (log listening_transport failing_db sample_args) =
       [Connect, Query (insert_statement listening_transport sample_args), Release,
        Emit ''error'' (Value (JStr (err_stack sample_error))),
        Callback (Value (JStr (err_stack sample_error))) (Value JUndefined)]
   \<and> query listening_transport failing_db (request (Some 10) (Some 2)) =
        Inr ([Connect, Query (Select (table listening_transport) (select_of (Some 20) (Some 10))), Release],
             Rejected (Value (JStr (err_stack sample_error))))"
proof -
  have a: "\<not> silent listening_transport" and b: "db_connect failing_db = None"
    and c: "db_query failing_db s = Inl sample_error" for s
    by (simp_all add: listening_transport_fields failing_db_def)
  have l: "listeners listening_transport ''error'' \<noteq> []"
    and r: "run_listeners (listeners listening_transport ''error'') (Value (JStr (err_stack sample_error))) = None"
    by (simp_all add: listening_transport_def)
  from statement_errors_deliver_stack [of listening_transport failing_db sample_args sample_error
      "request (Some 10) (Some 2)" "select_of (Some 20) (Some 10)" count_of] a b c l r build_request
  show ?thesis by simp
qed

end
